theory Spec2Isabelle
  imports Complex_Main
begin

section \<open>Word-level alignment, refinement and localisation: the control algorithms\<close>

text \<open>
  A shallow embedding of the three control algorithms of
  \<^verbatim>\<open>src/stable_whisper/alignment.py\<close>: the windowing loop of \<^verbatim>\<open>align\<close>,
  the bisection search of \<^verbatim>\<open>refine\<close> and the probe and decode loops of
  \<^verbatim>\<open>locate\<close>. The sequence model, the tokenizer and the audio front end are
  external collaborators; what they return enters the embedding as an argument.

  Conventions. Python integers and numpy integers are \<open>int\<close>. Times and probabilities are
  Python floats; they are embedded as exact rationals, so rounding error of the binary
  representation is not part of the embedding, while the special values a float division
  by zero produces are (type \<open>fval\<close> below). Exceptions are values of \<open>py_error\<close>.
\<close>

datatype py_error = ValueError | TypeError | NotImplementedError | IndexError | RuntimeError

subsection \<open>Rounding\<close>

text \<open>
  Python's \<^verbatim>\<open>round(x)\<close> and numpy's \<^verbatim>\<open>.round()\<close> round to the nearest integer and
  a tie to the even neighbour.
\<close>

definition pyround :: "rat \<Rightarrow> int" where
  "pyround x =
     (let f = \<lfloor>x\<rfloor>; d = x - of_int f
      in if d < 1 / 2 then f else if 1 / 2 < d then f + 1 else if even f then f else f + 1)"

text \<open>\<^verbatim>\<open>round(x, 3)\<close>: to the nearest multiple of one thousandth.\<close>

definition round3 :: "rat \<Rightarrow> rat" where
  "round3 x = of_int (pyround (x * 1000)) / 1000"

subsection \<open>Constants of the audio front end\<close>

text \<open>
  \<^verbatim>\<open>whisper.audio\<close> is an external package; the embedding fixes its constants at the
  values that package defines: 16000 samples per second, 100 mel frames per second,
  chunks of 30 seconds.
\<close>

definition SAMPLE_RATE :: int where
  "SAMPLE_RATE = 16000"

definition FRAMES_PER_SECOND :: int where
  "FRAMES_PER_SECOND = 100"

definition CHUNK_LENGTH :: int where
  "CHUNK_LENGTH = 30"

section \<open>align\<close>

subsection \<open>Validation of \<^verbatim>\<open>token_step\<close>\<close>

text \<open>
  \<^verbatim>\<open>
  max_token_step = model.dims.n_text_ctx - 6
  if token_step < 1:
      token_step = max_token_step
  elif token_step > max_token_step:
      raise ValueError(...)
  \<close>
  The result is the value of \<^verbatim>\<open>token_step\<close> the rest of \<^verbatim>\<open>align\<close> runs with.
\<close>

definition max_token_step :: "int \<Rightarrow> int" where
  "max_token_step n_text_ctx = n_text_ctx - 6"

definition align_token_step :: "int \<Rightarrow> int \<Rightarrow> py_error + int" where
  "align_token_step n_text_ctx token_step =
     (if token_step < 1 then Inr (max_token_step n_text_ctx)
      else if token_step > max_token_step n_text_ctx then Inl ValueError
      else Inr token_step)"

subsection \<open>Selecting the words of one request\<close>

text \<open>
  \<^verbatim>\<open>
  def get_curr_words():
      nonlocal words, word_tokens
      curr_tk_count = 0
      w, wt = [], []
      for _ in range(len(words)):
          tk_count = len(word_tokens[0])
          if curr_tk_count + tk_count > token_step and w:
              break
          w.append(words.pop(0))
          wt.append(word_tokens.pop(0))
          curr_tk_count += tk_count
      return w, wt
  \<close>
  \<^verbatim>\<open>words\<close> and \<^verbatim>\<open>word_tokens\<close> are the two pending queues of the enclosing
  function; the embedding returns them with the selection. The counter of the
  recursion is the \<^verbatim>\<open>range\<close>, fixed when the loop starts. Reading
  \<^verbatim>\<open>word_tokens[0]\<close> or popping from an empty list raises \<^verbatim>\<open>IndexError\<close>.
\<close>

fun get_curr_words_loop ::
  "int \<Rightarrow> nat \<Rightarrow> 'w list \<Rightarrow> 't list list \<Rightarrow> int \<Rightarrow> 'w list \<Rightarrow> 't list list
    \<Rightarrow> py_error + ('w list \<times> 't list list \<times> 'w list \<times> 't list list)" where
  "get_curr_words_loop token_step 0 words word_tokens curr_tk_count w wt =
     Inr (w, wt, words, word_tokens)"
| "get_curr_words_loop token_step (Suc n) words word_tokens curr_tk_count w wt =
     (case word_tokens of
        [] \<Rightarrow> Inl IndexError
      | t # word_tokens' \<Rightarrow>
          let tk_count = int (length t)
          in if curr_tk_count + tk_count > token_step \<and> w \<noteq> []
             then Inr (w, wt, words, word_tokens)
             else (case words of
                     [] \<Rightarrow> Inl IndexError
                   | x # words' \<Rightarrow>
                       get_curr_words_loop token_step n words' word_tokens'
                         (curr_tk_count + tk_count) (w @ [x]) (wt @ [t])))"

definition get_curr_words ::
  "int \<Rightarrow> 'w list \<Rightarrow> 't list list
    \<Rightarrow> py_error + ('w list \<times> 't list list \<times> 'w list \<times> 't list list)" where
  "get_curr_words token_step words word_tokens =
     get_curr_words_loop token_step (length words) words word_tokens 0 [] []"

text \<open>The number of tokens of a request.\<close>

definition token_count :: "'t list list \<Rightarrow> int" where
  "token_count wt = (\<Sum>t\<leftarrow>wt. int (length t))"

lemma token_count_append: "token_count (a @ b) = token_count a + token_count b"
  by (simp add: token_count_def)

lemma token_count_Cons: "token_count (t # wt) = int (length t) + token_count wt"
  by (simp add: token_count_def)

lemma token_count_nonneg: "0 \<le> token_count wt"
  by (induction wt) (simp_all add: token_count_def)

lemma token_count_take_mono:
  "i \<le> j \<Longrightarrow> token_count (take i wt) \<le> token_count (take j wt)"
proof -
  assume "i \<le> j"
  then have "take j wt = take i wt @ take (j - i) (drop i wt)"
    by (metis le_add_diff_inverse take_add)
  then show ?thesis
    using token_count_nonneg [of "take (j - i) (drop i wt)"]
    by (simp add: token_count_append)
qed

lemma get_curr_words_loop_spec:
  assumes "length words = length word_tokens" "n \<le> length words"
  shows "\<exists>k\<le>n.
    get_curr_words_loop token_step n words word_tokens c w wt
      = Inr (w @ take k words, wt @ take k word_tokens, drop k words, drop k word_tokens)
    \<and> (w = [] \<and> 0 < n \<longrightarrow> 1 \<le> k)
    \<and> (\<forall>j. 1 \<le> j \<and> j \<le> k \<and> (w \<noteq> [] \<or> 2 \<le> j) \<longrightarrow> c + token_count (take j word_tokens) \<le> token_step)
    \<and> (k < n \<longrightarrow> token_step < c + token_count (take (Suc k) word_tokens))"
  using assms
proof (induction n arbitrary: words word_tokens c w wt)
  case 0
  then show ?case by simp
next
  case (Suc n)
  then obtain x words' where words: "words = x # words'"
    by (cases words) auto
  with Suc.prems obtain t word_tokens' where toks: "word_tokens = t # word_tokens'"
    by (cases word_tokens) auto
  let ?tk = "int (length t)"
  show ?case
  proof (cases "c + ?tk > token_step \<and> w \<noteq> []")
    case True
    then show ?thesis
      by (intro exI [of _ 0]) (simp add: words toks token_count_def)
  next
    case False
    from Suc.prems words toks
    have len: "length words' = length word_tokens'" "n \<le> length words'" by simp_all
    from Suc.IH [OF len, of "c + ?tk" "w @ [x]" "wt @ [t]"]
    obtain k where k: "k \<le> n"
      "get_curr_words_loop token_step n words' word_tokens' (c + ?tk) (w @ [x]) (wt @ [t])
        = Inr ((w @ [x]) @ take k words', (wt @ [t]) @ take k word_tokens',
               drop k words', drop k word_tokens')"
      "\<forall>j. 1 \<le> j \<and> j \<le> k \<longrightarrow> c + ?tk + token_count (take j word_tokens') \<le> token_step"
      "k < n \<longrightarrow> token_step < c + ?tk + token_count (take (Suc k) word_tokens')"
      by auto
    have tc: "\<And>j. token_count (take (Suc j) (t # word_tokens')) = ?tk + token_count (take j word_tokens')"
      by (simp add: token_count_def)
    have "\<forall>j. 1 \<le> j \<and> j \<le> Suc k \<and> (w \<noteq> [] \<or> 2 \<le> j)
            \<longrightarrow> c + token_count (take j word_tokens) \<le> token_step"
    proof (intro allI impI)
      fix j assume j: "1 \<le> j \<and> j \<le> Suc k \<and> (w \<noteq> [] \<or> 2 \<le> j)"
      then obtain j' where j': "j = Suc j'" by (cases j) auto
      show "c + token_count (take j word_tokens) \<le> token_step"
      proof (cases "j' = 0")
        case True
        with j j' False show ?thesis by (simp add: toks token_count_def)
      next
        case False
        with j j' k(3) [rule_format, of j'] show ?thesis by (simp add: toks token_count_Cons)
      qed
    qed
    moreover have "Suc k < Suc n \<longrightarrow> token_step < c + token_count (take (Suc (Suc k)) word_tokens)"
      using k(4) by (simp add: toks token_count_Cons add.assoc)
    ultimately show ?thesis
      using False k(1,2) by (intro exI [of _ "Suc k"]) (simp add: words toks Let_def)
  qed
qed

text \<open>
  Claim C6. Each call of \<^verbatim>\<open>get_curr_words\<close> on a non-empty queue takes a prefix of
  \<open>k \<ge> 1\<close> words off the two queues; no prefix whose token count is within
  \<^verbatim>\<open>token_step\<close> is longer than \<open>k\<close>, and the selection itself is within
  \<^verbatim>\<open>token_step\<close> unless it is a single word.
\<close>

theorem get_curr_words_longest_prefix:
  assumes "length words = length word_tokens" and "words \<noteq> []"
  shows "\<exists>k. 1 \<le> k \<and> k \<le> length words
    \<and> get_curr_words token_step words word_tokens
        = Inr (take k words, take k word_tokens, drop k words, drop k word_tokens)
    \<and> (\<forall>n. n \<le> length words \<and> token_count (take n word_tokens) \<le> token_step \<longrightarrow> n \<le> k)
    \<and> (token_count (take k word_tokens) \<le> token_step \<or> k = 1)"
proof -
  from get_curr_words_loop_spec [OF assms(1) le_refl, of token_step 0 "[]" "[]"]
  obtain k where k: "k \<le> length words"
    "get_curr_words token_step words word_tokens
       = Inr (take k words, take k word_tokens, drop k words, drop k word_tokens)"
    "1 \<le> k"
    "\<forall>j. 2 \<le> j \<and> j \<le> k \<longrightarrow> token_count (take j word_tokens) \<le> token_step"
    "k < length words \<longrightarrow> token_step < token_count (take (Suc k) word_tokens)"
    using assms(2) by (auto simp: get_curr_words_def)
  have longest: "\<forall>n. n \<le> length words \<and> token_count (take n word_tokens) \<le> token_step \<longrightarrow> n \<le> k"
  proof (intro allI impI, rule ccontr)
    fix n assume n: "n \<le> length words \<and> token_count (take n word_tokens) \<le> token_step"
      and "\<not> n \<le> k"
    then have "Suc k \<le> n" "k < length words" by simp_all
    with k(5) token_count_take_mono [of "Suc k" n word_tokens] n show False by simp
  qed
  have "token_count (take k word_tokens) \<le> token_step \<or> k = 1"
    using k(3,4) by (cases "k = 1") auto
  with k longest show ?thesis by blast
qed

theorem get_curr_words_longest_prefix_witness:
  "\<exists>k. 1 \<le> k \<and> k \<le> length [''a'', ''b'', ''c'']
    \<and> get_curr_words 3 [''a'', ''b'', ''c''] [[1, 2], [3::nat], [4]]
        = Inr (take k [''a'', ''b'', ''c''], take k [[1, 2], [3], [4]],
               drop k [''a'', ''b'', ''c''], drop k [[1, 2], [3], [4]])
    \<and> (\<forall>n. n \<le> length [''a'', ''b'', ''c'']
           \<and> token_count (take n [[1, 2], [3::nat], [4]]) \<le> 3 \<longrightarrow> n \<le> k)
    \<and> (token_count (take k [[1, 2], [3::nat], [4]]) \<le> 3 \<or> k = 1)"
  using get_curr_words_longest_prefix [of "[''a'', ''b'', ''c'']" "[[1, 2], [3::nat], [4]]" 3]
  by simp

text \<open>
  Claim C10. A \<^verbatim>\<open>token_step\<close> below 1 is never an error and is replaced by
  \<^verbatim>\<open>n_text_ctx - 6\<close>; a \<^verbatim>\<open>token_step\<close> of at least 1 raises
  \<^verbatim>\<open>ValueError\<close> exactly when it exceeds \<^verbatim>\<open>n_text_ctx - 6\<close>, and is kept
  otherwise. No other error comes from the check.
\<close>

theorem align_token_step_spec:
  "(token_step < 1 \<longrightarrow> align_token_step n_text_ctx token_step = Inr (n_text_ctx - 6))
   \<and> (1 \<le> token_step \<longrightarrow>
        (align_token_step n_text_ctx token_step = Inl ValueError \<longleftrightarrow> token_step > n_text_ctx - 6))
   \<and> (1 \<le> token_step \<and> token_step \<le> n_text_ctx - 6 \<longrightarrow>
        align_token_step n_text_ctx token_step = Inr token_step)
   \<and> (\<forall>e. align_token_step n_text_ctx token_step = Inl e \<longrightarrow> e = ValueError)"
  by (auto simp: align_token_step_def max_token_step_def)

theorem align_token_step_spec_witness:
  "align_token_step 448 0 = Inr 442 \<and> align_token_step 448 443 = Inl ValueError
   \<and> align_token_step 448 100 = Inr 100 \<and> align_token_step 448 442 = Inr 442"
  using align_token_step_spec [of 0 448] align_token_step_spec [of 443 448]
    align_token_step_spec [of 100 448] align_token_step_spec [of 442 448]
  by simp

end
